theory Spec2Isabelle
  imports Main "HOL-Library.Word" "HOL-Library.Multiset"
begin

unbundle bit_operations_syntax

section \<open>Common definitions\<close>

text \<open>
  A call of the kernel either returns, or stops in \<open>panic("...")\<close>, or goes to sleep
  on a channel and does not complete in the state it was called in.
\<close>

datatype stop = Panic string | Sleep

type_synonym uint = "32 word"
type_synonym uchar = "8 word"
type_synonym short = "16 word"

text \<open>
  The constants of \<open>param.h\<close>. The header is not among the sources and the spec gives no
  values, so the functions below take the constants as a parameter.
\<close>

record params =
  MAXOPBLOCKS :: int
  LOGSIZE :: int
  NINODE :: nat

text \<open>
  Modelled from the spec: the constants of \<open>fs.h\<close>, which is not among the sources.
  A block has \<open>BSIZE\<close> bytes (1024); an inode has \<open>NDIRECT = 11\<close> direct addresses, one
  indirect and one doubly-indirect address; an indirect block holds
  \<open>NINDIRECT = BSIZE/4\<close> addresses; the largest file has
  \<open>NDIRECT + NINDIRECT + NINDIRECT\<^sup>2\<close> blocks; a directory entry has a name of
  \<open>DIRSIZ = 14\<close> bytes; a bitmap block has one bit for each of \<open>BPB\<close> blocks;
  \<open>IPB = BSIZE/sizeof(dinode)\<close> inodes are in a block, a \<open>dinode\<close> being four 16-bit
  fields, the size and the \<open>NDIRECT+2\<close> addresses.
\<close>

definition BSIZE :: nat where "BSIZE = 1024"
definition NDIRECT :: nat where "NDIRECT = 11"
definition NINDIRECT :: nat where "NINDIRECT = BSIZE div 4"
definition MAXFILE :: nat where "MAXFILE = NDIRECT + NINDIRECT + NINDIRECT * NINDIRECT"
definition DIRSIZ :: nat where "DIRSIZ = 14"
definition BPB :: nat where "BPB = BSIZE * 8"
definition dinode_words :: nat where "dinode_words = NDIRECT + 5"
definition IPB :: nat where "IPB = BSIZE div (4 * dinode_words)"

section \<open>Buffers and the disk\<close>

text \<open>
  \<open>uchar data[BSIZE]\<close>: the bytes of a block, by offset. \<open>(uint*)bp->data\<close> and the
  \<open>int\<close> fields of the log header read and write four bytes, least significant
  first (the kernel runs on little-endian RISC-V).
\<close>

type_synonym block = "nat \<Rightarrow> uchar"

definition rd32 :: "block \<Rightarrow> nat \<Rightarrow> uint" where
  "rd32 d j =
     ucast (d (4 * j)) OR push_bit 8 (ucast (d (4 * j + 1)))
       OR push_bit 16 (ucast (d (4 * j + 2))) OR push_bit 24 (ucast (d (4 * j + 3)))"

definition wr32 :: "block \<Rightarrow> nat \<Rightarrow> uint \<Rightarrow> block" where
  "wr32 d j v =
     d(4 * j := ucast v, 4 * j + 1 := ucast (drop_bit 8 v),
       4 * j + 2 := ucast (drop_bit 16 v), 4 * j + 3 := ucast (drop_bit 24 v))"

definition rd16 :: "block \<Rightarrow> nat \<Rightarrow> short" where
  "rd16 d j = ucast (d (2 * j)) OR push_bit 8 (ucast (d (2 * j + 1)))"

definition wr16 :: "block \<Rightarrow> nat \<Rightarrow> short \<Rightarrow> block" where
  "wr16 d j v = d(2 * j := ucast v, 2 * j + 1 := ucast (drop_bit 8 v))"

text \<open>
  \<open>struct buf\<close>, without its locks and list pointers. \<open>lastuse\<close> is the field that
  bio.c reads and writes.
\<close>

record buf =
  valid :: int
  dev :: uint
  blockno :: uint
  refcnt :: uint
  lastuse :: uint
  data :: block

section \<open>The buffer cache (bio.c)\<close>

text \<open>
  \<open>bcache.bufmap[NBUFMAP_BUCKET]\<close>: each bucket is the list of the buffers linked from
  its dummy head through \<open>next\<close>, a buffer being paired with its index in
  \<open>bcache.buf\<close> (the identity of the \<open>struct buf\<close>). The dummy heads are never
  written, so their \<open>lastuse\<close> is the 0 of a static object. The spin-locks and
  sleep-locks are not modelled: \<open>bget\<close> is what one thread does to the data when no
  other thread runs.
\<close>

type_synonym bcache = "(nat \<times> buf) list list"

definition NBUFMAP_BUCKET :: nat where "NBUFMAP_BUCKET = 13"

definition BUFMAP_HASH :: "uint \<Rightarrow> uint \<Rightarrow> nat" where
  "BUFMAP_HASH dv bno = unat ((push_bit 27 dv OR bno) mod word_of_nat NBUFMAP_BUCKET)"

text \<open>
  The first two loops of \<open>bget\<close> over the bucket: a buffer with the identity gets
  \<open>refcnt++\<close>, and the loop goes on to the next buffer (the body has no \<open>return\<close>).
\<close>

definition bget_rescan :: "uint \<Rightarrow> uint \<Rightarrow> (nat \<times> buf) list \<Rightarrow> (nat \<times> buf) list" where
  "bget_rescan dv bno bucket =
     map (\<lambda>(k, b). if dev b = dv \<and> blockno b = bno then (k, b\<lparr>refcnt := refcnt b + 1\<rparr>)
                   else (k, b)) bucket"

text \<open>
  The inner loop of the eviction scan over bucket \<open>i\<close>, at the node \<open>b\<close> whose
  \<open>lastuse\<close> is \<open>prev\<close> and whose successors are the buffers from position \<open>p\<close> on.
  \<open>before_last\<close> is the bucket and position of the buffer after the node it points to.
\<close>

fun scan_bucket ::
  "bcache \<Rightarrow> nat \<Rightarrow> uint \<Rightarrow> nat \<Rightarrow> (nat \<times> buf) list \<Rightarrow> (nat \<times> nat) option \<times> bool
     \<Rightarrow> (nat \<times> nat) option \<times> bool" where
  "scan_bucket bc i prev p [] (before_last, new_buf) = (before_last, new_buf)"
| "scan_bucket bc i prev p (x # xs) (before_last, new_buf) =
     (if refcnt (snd x) = 0 \<and>
         (case before_last of
            None \<Rightarrow> True
          | Some (i', p') \<Rightarrow> prev < lastuse (snd (bc ! i' ! p')))
      then scan_bucket bc i (lastuse (snd x)) (p + 1) xs (Some (i, p), True)
      else scan_bucket bc i (lastuse (snd x)) (p + 1) xs (before_last, new_buf))"

text \<open>The outer loop over the buckets, from bucket \<open>i\<close> on.\<close>

function scan_buckets ::
  "bcache \<Rightarrow> nat \<Rightarrow> (nat \<times> nat) option \<times> uint \<Rightarrow> (nat \<times> nat) option \<times> uint" where
  "scan_buckets bc i (before_last, holding_bucket) =
     (if i < NBUFMAP_BUCKET then
        (let (before_last', new_buf) = scan_bucket bc i 0 0 (bc ! i) (before_last, False)
         in scan_buckets bc (i + 1)
              (before_last', if new_buf then word_of_nat i else holding_bucket))
      else (before_last, holding_bucket))"
  by pat_completeness auto
termination
  by (relation "measure (\<lambda>(bc, i, acc). NBUFMAP_BUCKET - i)") auto

declare scan_buckets.simps [simp del]

definition bget :: "bcache \<Rightarrow> uint \<Rightarrow> uint \<Rightarrow> stop + (nat \<times> bcache)" where
  "bget bc dv bno =
     (let key = BUFMAP_HASH dv bno;
          bc1 = bc[key := bget_rescan dv bno (bc ! key)];
          bc2 = bc1[key := bget_rescan dv bno (bc1 ! key)];
          (before_last, holding_bucket) = scan_buckets bc2 0 (None, - 1)
      in case before_last of
           None \<Rightarrow> Inl (Panic ''bget: no buffers'')
         | Some (i, p) \<Rightarrow>
             (let (k, b) = bc2 ! i ! p;
                  b' = b\<lparr>dev := dv, blockno := bno, refcnt := 1, valid := 0\<rparr>
              in if holding_bucket \<noteq> word_of_nat key
                 then (let bc3 = bc2[i := take p (bc2 ! i) @ drop (p + 1) (bc2 ! i)]
                       in Inr (k, bc3[key := (k, b') # bc3 ! key]))
                 else Inr (k, bc2[i := (bc2 ! i)[p := (k, b')]])))"

section \<open>Superblock and inodes\<close>

text \<open>
  Modelled from the spec: \<open>struct superblock\<close> (\<open>fs.h\<close>) and the in-memory
  \<open>struct inode\<close> (\<open>file.h\<close>) are not among the sources; the fields are those the
  spec lists, without the sleep-lock. \<open>short\<close> fields are 16-bit words, \<open>ref\<close> and
  \<open>valid\<close> are \<open>int\<close>s, \<open>addrs\<close> has \<open>NDIRECT+2\<close> entries.
\<close>

record superblock =
  sb_magic :: uint
  sb_size :: uint
  sb_nblocks :: uint
  sb_ninodes :: uint
  sb_nlog :: uint
  sb_logstart :: uint
  sb_inodestart :: uint
  sb_bmapstart :: uint

record inode =
  i_dev :: uint
  i_inum :: uint
  i_ref :: int
  i_valid :: int
  i_type :: short
  i_major :: short
  i_minor :: short
  i_nlink :: short
  i_size :: uint
  i_addrs :: "uint list"

section \<open>The log (log.c)\<close>

text \<open>
  \<open>struct logheader\<close> and \<open>struct log\<close>. The fields are C \<open>int\<close>s; the counters are
  modelled as unbounded integers, the entries of \<open>block\<close> as the 32-bit patterns that
  are stored from and compared with the unsigned \<open>b->blockno\<close>.
\<close>

record logheader =
  lh_n :: int
  lh_block :: "uint list"

record log =
  log_start :: int
  log_size :: int
  outstanding :: int
  committing :: int
  log_dev :: int
  lh :: logheader

subsection \<open>The state, and the buffer cache in it\<close>

text \<open>
  The state of the kernel, as far as the file system goes: the log, the buffer cache,
  the disk, the sequence of block writes that the disk driver has been asked for, the
  clock, the superblock \<open>sb\<close> and the inode cache \<open>icache.inode[NINODE]\<close>.

  \<open>bufs\<close> is the array \<open>bcache.buf\<close>, by index, and \<open>buckets\<close> are the lists linked
  from \<open>bcache.bufmap[i]\<close>, as the indices of their buffers. A \<open>struct buf *\<close> is the
  index of the buffer. There is one disk, addressed by block number. The sleep-locks and
  spin-locks are not modelled.
\<close>

record kstate =
  klog :: log
  bufs :: "nat \<Rightarrow> buf"
  buckets :: "nat list list"
  disk :: "uint \<Rightarrow> block"
  dwrites :: "(uint \<times> block) list"
  ticks :: uint
  sb :: superblock
  icache :: "nat \<Rightarrow> inode"

text \<open>
  The buckets with the buffers at their indices, which is what \<open>bget\<close> works on, and
  the state with the buckets and the buffers that \<open>bget\<close> has left.
\<close>

definition bcache_of :: "kstate \<Rightarrow> bcache" where
  "bcache_of s = map (map (\<lambda>k. (k, bufs s k))) (buckets s)"

definition store_bcache :: "kstate \<Rightarrow> bcache \<Rightarrow> kstate" where
  "store_bcache s bc =
     s\<lparr>bufs := (\<lambda>k. case map_of (concat bc) k of Some b \<Rightarrow> b | None \<Rightarrow> bufs s k),
       buckets := map (map fst) bc\<rparr>"

text \<open>
  Modelled from the spec: \<open>virtio_disk_rw(b, write)\<close> is the driver's
  \<open>disk_rw(block_image, write_flag)\<close>, a synchronous read or write of the one block
  \<open>b->blockno\<close>; the driver is not among the sources.
\<close>

definition virtio_disk_rw :: "kstate \<Rightarrow> nat \<Rightarrow> bool \<Rightarrow> kstate" where
  "virtio_disk_rw s b write =
     (let bf = bufs s b in
      if write
      then s\<lparr>disk := (disk s)(blockno bf := data bf),
             dwrites := dwrites s @ [(blockno bf, data bf)]\<rparr>
      else s\<lparr>bufs := (bufs s)(b := bf\<lparr>data := disk s (blockno bf)\<rparr>)\<rparr>)"

text \<open>
  \<open>bread\<close>: \<open>b = bget(dev, blockno); if(!b->valid) { virtio_disk_rw(b, 0); b->valid = 1; }\<close>,
  with the \<open>bget\<close> of bio.c.
\<close>

definition bread :: "kstate \<Rightarrow> uint \<Rightarrow> uint \<Rightarrow> stop + (nat \<times> kstate)" where
  "bread s dv bno =
     (case bget (bcache_of s) dv bno of
        Inl e \<Rightarrow> Inl e
      | Inr (b, bc) \<Rightarrow>
          (let s1 = store_bcache s bc in
           if valid (bufs s1 b) = 0
           then (let s2 = virtio_disk_rw s1 b False
                 in Inr (b, s2\<lparr>bufs := (bufs s2)(b := (bufs s2 b)\<lparr>valid := 1\<rparr>)\<rparr>))
           else Inr (b, s1)))"

definition bwrite :: "kstate \<Rightarrow> nat \<Rightarrow> kstate" where
  "bwrite s b = virtio_disk_rw s b True"

definition brelse :: "kstate \<Rightarrow> nat \<Rightarrow> kstate" where
  "brelse s b =
     (let bf = (bufs s b)\<lparr>refcnt := refcnt (bufs s b) - 1\<rparr>
      in s\<lparr>bufs := (bufs s)(b := if refcnt bf = 0 then bf\<lparr>lastuse := ticks s\<rparr> else bf)\<rparr>)"

definition bpin :: "kstate \<Rightarrow> nat \<Rightarrow> kstate" where
  "bpin s b = s\<lparr>bufs := (bufs s)(b := (bufs s b)\<lparr>refcnt := refcnt (bufs s b) + 1\<rparr>)\<rparr>"

definition bunpin :: "kstate \<Rightarrow> nat \<Rightarrow> kstate" where
  "bunpin s b = s\<lparr>bufs := (bufs s)(b := (bufs s b)\<lparr>refcnt := refcnt (bufs s b) - 1\<rparr>)\<rparr>"

text \<open>An assignment through \<open>b->data\<close>.\<close>

definition set_data :: "kstate \<Rightarrow> nat \<Rightarrow> block \<Rightarrow> kstate" where
  "set_data s b d = s\<lparr>bufs := (bufs s)(b := (bufs s b)\<lparr>data := d\<rparr>)\<rparr>"

text \<open>What the buffer operations leave as it is.\<close>

lemma bread_keeps:
  "bread s dv bno = Inr (b, s') \<Longrightarrow>
     klog s' = klog s \<and> sb s' = sb s \<and> icache s' = icache s \<and> disk s' = disk s \<and>
     dwrites s' = dwrites s \<and> ticks s' = ticks s"
  by (auto simp: bread_def store_bcache_def virtio_disk_rw_def Let_def
           split: sum.splits if_splits)

lemma bread_Inl: "bread s dv bno = Inl e \<Longrightarrow> e = Panic ''bget: no buffers''"
  by (auto simp: bread_def bget_def Let_def split_beta split: sum.splits option.splits if_splits)

lemma sb_brelse [simp]: "sb (brelse s b) = sb s" "icache (brelse s b) = icache s"
  by (simp_all add: brelse_def Let_def)

lemma sb_bwrite [simp]: "sb (bwrite s b) = sb s" "icache (bwrite s b) = icache s"
  by (simp_all add: bwrite_def virtio_disk_rw_def Let_def)

lemma sb_bpin [simp]: "sb (bpin s b) = sb s" "icache (bpin s b) = icache s"
  by (simp_all add: bpin_def)

lemma sb_bunpin [simp]: "sb (bunpin s b) = sb s" "icache (bunpin s b) = icache s"
  by (simp_all add: bunpin_def)

lemma sb_set_data [simp]: "sb (set_data s b d) = sb s" "icache (set_data s b d) = icache s"
  by (simp_all add: set_data_def)

lemma klog_bwrite [simp]: "klog (bwrite s b) = klog s"
  by (simp add: bwrite_def virtio_disk_rw_def Let_def)

lemma klog_brelse [simp]: "klog (brelse s b) = klog s"
  by (simp add: brelse_def Let_def)

lemma klog_bunpin [simp]: "klog (bunpin s b) = klog s"
  by (simp add: bunpin_def)

lemma klog_bpin [simp]: "klog (bpin s b) = klog s"
  by (simp add: bpin_def)

lemma klog_set_data [simp]: "klog (set_data s b d) = klog s"
  by (simp add: set_data_def)

subsection \<open>begin_op\<close>

text \<open>
  One pass through the body of the \<open>while(1)\<close> loop of \<open>begin_op\<close>, with \<open>log.lock\<close>
  held: either the caller sleeps (and will run the test again after a wakeup), or the
  operation is admitted and the call returns.
\<close>

definition begin_op :: "params \<Rightarrow> log \<Rightarrow> stop + log" where
  "begin_op P l =
     (if committing l \<noteq> 0 then Inl Sleep
      else if lh_n (lh l) + (outstanding l + 1) * MAXOPBLOCKS P > LOGSIZE P then Inl Sleep
      else Inr (l\<lparr>outstanding := outstanding l + 1\<rparr>))"

subsection \<open>write_log, write_head, install_trans, commit\<close>

definition ldev :: "kstate \<Rightarrow> uint" where
  "ldev s = word_of_int (log_dev (klog s))"

text \<open>
  The body of the loop of \<open>write_log\<close>, and the loop from \<open>tail\<close> on.
  \<open>memmove(to->data, from->data, BSIZE)\<close> overwrites all of \<open>to->data\<close>, an array of
  \<open>BSIZE\<close> bytes, so the model assigns the block as a whole.
\<close>

definition write_log_body :: "int \<Rightarrow> kstate \<Rightarrow> stop + kstate" where
  "write_log_body tail s =
     (case bread s (ldev s) (word_of_int (log_start (klog s) + tail + 1)) of
        Inl e \<Rightarrow> Inl e
      | Inr (to_b, s1) \<Rightarrow>
          (case bread s1 (ldev s1) (lh_block (lh (klog s1)) ! nat tail) of
             Inl e \<Rightarrow> Inl e
           | Inr (from_b, s2) \<Rightarrow>
               (let s3 = set_data s2 to_b (data (bufs s2 from_b));
                    s4 = bwrite s3 to_b;
                    s5 = brelse s4 from_b
                in Inr (brelse s5 to_b))))"

lemma klog_write_log_body: "write_log_body tail s = Inr s' \<Longrightarrow> klog s' = klog s"
  by (auto simp: write_log_body_def Let_def split: sum.splits dest!: bread_keeps)

function write_log_from :: "int \<Rightarrow> kstate \<Rightarrow> stop + kstate" where
  "write_log_from tail s =
     (if tail < lh_n (lh (klog s)) then
        (case write_log_body tail s of
           Inl e \<Rightarrow> Inl e
         | Inr s1 \<Rightarrow> write_log_from (tail + 1) s1)
      else Inr s)"
  by pat_completeness auto
termination
  by (relation "measure (\<lambda>(tail, s). nat (lh_n (lh (klog s)) - tail))")
     (auto dest!: klog_write_log_body)

declare write_log_from.simps [simp del]

definition write_log :: "kstate \<Rightarrow> stop + kstate" where
  "write_log s = write_log_from 0 s"

text \<open>The loop of \<open>write_head\<close> that stores \<open>log.lh.block[i]\<close> into \<open>hb->block[i]\<close>.\<close>

function write_head_from :: "logheader \<Rightarrow> int \<Rightarrow> block \<Rightarrow> block" where
  "write_head_from h i d =
     (if i < lh_n h then write_head_from h (i + 1) (wr32 d (nat (i + 1)) (lh_block h ! nat i))
      else d)"
  by pat_completeness auto
termination
  by (relation "measure (\<lambda>(h, i, d). nat (lh_n h - i))") auto

declare write_head_from.simps [simp del]

definition write_head :: "kstate \<Rightarrow> stop + kstate" where
  "write_head s =
     (case bread s (ldev s) (word_of_int (log_start (klog s))) of
        Inl e \<Rightarrow> Inl e
      | Inr (b, s1) \<Rightarrow>
          (let h = lh (klog s1);
               s2 = set_data s1 b
                      (write_head_from h 0 (wr32 (data (bufs s1 b)) 0 (word_of_int (lh_n h))));
               s3 = bwrite s2 b
           in Inr (brelse s3 b)))"

text \<open>The body of the loop of \<open>install_trans\<close>, and the loop from \<open>tail\<close> on.\<close>

definition install_trans_body :: "int \<Rightarrow> int \<Rightarrow> kstate \<Rightarrow> stop + kstate" where
  "install_trans_body recovering tail s =
     (case bread s (ldev s) (word_of_int (log_start (klog s) + tail + 1)) of
        Inl e \<Rightarrow> Inl e
      | Inr (lbuf, s1) \<Rightarrow>
          (case bread s1 (ldev s1) (lh_block (lh (klog s1)) ! nat tail) of
             Inl e \<Rightarrow> Inl e
           | Inr (dbuf, s2) \<Rightarrow>
               (let s3 = set_data s2 dbuf (data (bufs s2 lbuf));
                    s4 = bwrite s3 dbuf;
                    s5 = (if recovering = 0 then bunpin s4 dbuf else s4);
                    s6 = brelse s5 lbuf
                in Inr (brelse s6 dbuf))))"

lemma klog_install_trans_body:
  "install_trans_body recovering tail s = Inr s' \<Longrightarrow> klog s' = klog s"
  by (auto simp: install_trans_body_def Let_def split: sum.splits dest!: bread_keeps)

function install_trans_from :: "int \<Rightarrow> int \<Rightarrow> kstate \<Rightarrow> stop + kstate" where
  "install_trans_from recovering tail s =
     (if tail < lh_n (lh (klog s)) then
        (case install_trans_body recovering tail s of
           Inl e \<Rightarrow> Inl e
         | Inr s1 \<Rightarrow> install_trans_from recovering (tail + 1) s1)
      else Inr s)"
  by pat_completeness auto
termination
  by (relation "measure (\<lambda>(recovering, tail, s). nat (lh_n (lh (klog s)) - tail))")
     (auto dest!: klog_install_trans_body)

declare install_trans_from.simps [simp del]

definition install_trans :: "int \<Rightarrow> kstate \<Rightarrow> stop + kstate" where
  "install_trans recovering s = install_trans_from recovering 0 s"

definition commit :: "kstate \<Rightarrow> stop + kstate" where
  "commit s =
     (if lh_n (lh (klog s)) > 0 then
        (case write_log s of
           Inl e \<Rightarrow> Inl e
         | Inr s1 \<Rightarrow>
             (case write_head s1 of
                Inl e \<Rightarrow> Inl e
              | Inr s2 \<Rightarrow>
                  (case install_trans 0 s2 of
                     Inl e \<Rightarrow> Inl e
                   | Inr s3 \<Rightarrow>
                       write_head (s3\<lparr>klog := (klog s3)\<lparr>lh := (lh (klog s3))\<lparr>lh_n := 0\<rparr>\<rparr>\<rparr>))))
      else Inr s)"

subsection \<open>end_op\<close>

text \<open>
  \<open>end_op\<close> has two critical sections with the call of \<open>commit\<close> between them. The
  first one, \<open>end_op_enter\<close>, returns the local variable \<open>do_commit\<close>; the rest,
  \<open>end_op_commit\<close>, is run by the caller for which \<open>do_commit\<close> is set.
\<close>

definition end_op_enter :: "log \<Rightarrow> stop + (bool \<times> log)" where
  "end_op_enter l =
     (let l1 = l\<lparr>outstanding := outstanding l - 1\<rparr> in
      if committing l1 \<noteq> 0 then Inl (Panic ''log.committing'')
      else if outstanding l1 = 0 then Inr (True, l1\<lparr>committing := 1\<rparr>)
      else Inr (False, l1))"

definition end_op_commit :: "kstate \<Rightarrow> stop + kstate" where
  "end_op_commit s =
     (case commit s of
        Inl e \<Rightarrow> Inl e
      | Inr s1 \<Rightarrow> Inr (s1\<lparr>klog := (klog s1)\<lparr>committing := 0\<rparr>\<rparr>))"

definition end_op :: "kstate \<Rightarrow> stop + kstate" where
  "end_op s =
     (case end_op_enter (klog s) of
        Inl e \<Rightarrow> Inl e
      | Inr (do_commit, l) \<Rightarrow>
          (let s1 = s\<lparr>klog := l\<rparr> in if do_commit then end_op_commit s1 else Inr s1))"

subsection \<open>log_write\<close>

text \<open>The scan of \<open>log.lh.block[0..n)\<close> for the block number; the result is the final \<open>i\<close>.\<close>

function log_scan :: "logheader \<Rightarrow> uint \<Rightarrow> int \<Rightarrow> int" where
  "log_scan h bno i =
     (if i < lh_n h then (if lh_block h ! nat i = bno then i else log_scan h bno (i + 1))
      else i)"
  by pat_completeness auto
termination
  by (relation "measure (\<lambda>(h, bno, i). nat (lh_n h - i))") auto

declare log_scan.simps [simp del]

definition log_write :: "params \<Rightarrow> kstate \<Rightarrow> nat \<Rightarrow> stop + kstate" where
  "log_write P s b =
     (let l = klog s; h = lh l in
      if lh_n h \<ge> LOGSIZE P \<or> lh_n h \<ge> log_size l - 1
      then Inl (Panic ''too big a transaction'')
      else if outstanding l < 1 then Inl (Panic ''log_write outside of trans'')
      else
        (let i = log_scan h (blockno (bufs s b)) 0;
             h1 = h\<lparr>lh_block := (lh_block h)[nat i := blockno (bufs s b)]\<rparr>;
             s1 = s\<lparr>klog := l\<lparr>lh := h1\<rparr>\<rparr>
         in if i = lh_n h
            then (let s2 = bpin s1 b
                  in Inr (s2\<lparr>klog := (klog s2)\<lparr>lh := (lh (klog s2))\<lparr>lh_n := lh_n h + 1\<rparr>\<rparr>\<rparr>))
            else Inr s1))"

subsection \<open>The log as a state machine\<close>

text \<open>
  The critical sections of the log, as they interleave among the processes: a completed
  \<open>begin_op\<close>, the first critical section of \<open>end_op\<close>, the commit with the second
  critical section, and \<open>log_write\<close>. Beside the kernel state the system records how
  many processes are between their \<open>begin_op\<close> and their \<open>end_op\<close>, and whether a
  process holds \<open>do_commit\<close>; a step that no process can take (an \<open>end_op\<close> or a
  \<open>log_write\<close> outside of an operation, a commit without \<open>do_commit\<close>) is \<open>None\<close>.
\<close>

datatype event = BeginOp | EndOp | Commit | LogWrite nat

record sys =
  ker :: kstate
  inop :: nat
  committer :: bool

fun step :: "params \<Rightarrow> sys \<Rightarrow> event \<Rightarrow> (stop + sys) option" where
  "step P x BeginOp =
     Some (case begin_op P (klog (ker x)) of
             Inl e \<Rightarrow> Inl e
           | Inr l \<Rightarrow> Inr (x\<lparr>ker := (ker x)\<lparr>klog := l\<rparr>, inop := inop x + 1\<rparr>))"
| "step P x EndOp =
     (if inop x = 0 then None
      else Some (case end_op_enter (klog (ker x)) of
                   Inl e \<Rightarrow> Inl e
                 | Inr (do_commit, l) \<Rightarrow>
                     Inr (x\<lparr>ker := (ker x)\<lparr>klog := l\<rparr>, inop := inop x - 1,
                            committer := (committer x \<or> do_commit)\<rparr>)))"
| "step P x Commit =
     (if committer x
      then Some (case end_op_commit (ker x) of
                   Inl e \<Rightarrow> Inl e
                 | Inr s \<Rightarrow> Inr (x\<lparr>ker := s, committer := False\<rparr>))
      else None)"
| "step P x (LogWrite b) =
     (if inop x = 0 then None
      else Some (case log_write P (ker x) b of
                   Inl e \<Rightarrow> Inl e
                 | Inr s \<Rightarrow> Inr (x\<lparr>ker := s\<rparr>)))"

fun run :: "params \<Rightarrow> event list \<Rightarrow> sys \<Rightarrow> (stop + sys) option" where
  "run P [] x = Some (Inr x)"
| "run P (e # es) x =
     (case step P x e of
        None \<Rightarrow> None
      | Some (Inl st) \<Rightarrow> Some (Inl st)
      | Some (Inr x') \<Rightarrow> run P es x')"

definition IDLE :: "log \<Rightarrow> bool" where
  "IDLE l \<longleftrightarrow> outstanding l = 0 \<and> committing l = 0"

definition ACTIVE :: "log \<Rightarrow> bool" where
  "ACTIVE l \<longleftrightarrow> outstanding l > 0 \<and> committing l = 0"

definition COMMITTING :: "log \<Rightarrow> bool" where
  "COMMITTING l \<longleftrightarrow> outstanding l = 0 \<and> committing l = 1"

section \<open>Blocks (fs.c)\<close>

text \<open>
  Modelled from the spec: the macros \<open>BBLOCK\<close> and \<open>IBLOCK\<close> of \<open>fs.h\<close>. The bitmap
  starts at \<open>bmapstart\<close> with one bit per block; inode \<open>i\<close> is in block
  \<open>inodestart + i/IPB\<close>, slot \<open>i%IPB\<close>.
\<close>

definition BBLOCK :: "superblock \<Rightarrow> uint \<Rightarrow> uint" where
  "BBLOCK sp b = b div word_of_nat BPB + sb_bmapstart sp"

definition IBLOCK :: "superblock \<Rightarrow> uint \<Rightarrow> uint" where
  "IBLOCK sp i = i div word_of_nat IPB + sb_inodestart sp"

text \<open>\<open>m = 1 << (bi % 8)\<close>, as a mask on the byte \<open>bp->data[bi/8]\<close>.\<close>

definition bitmask :: "nat \<Rightarrow> uchar" where
  "bitmask bi = push_bit (bi mod 8) 1"

definition bzero :: "params \<Rightarrow> kstate \<Rightarrow> uint \<Rightarrow> uint \<Rightarrow> stop + kstate" where
  "bzero P s dv bno =
     (case bread s dv bno of
        Inl e \<Rightarrow> Inl e
      | Inr (bp, s1) \<Rightarrow>
          (let s2 = set_data s1 bp (\<lambda>_. 0)
           in case log_write P s2 bp of
                Inl e \<Rightarrow> Inl e
              | Inr s3 \<Rightarrow> Inr (brelse s3 bp)))"

text \<open>
  The inner loop of \<open>balloc\<close> over the bits \<open>bi\<close> of the bitmap block that starts at
  block \<open>b\<close>: the first \<open>bi\<close> with a clear bit, if there is one before \<open>BPB\<close> and before
  \<open>sb.size\<close>. The loop changes nothing before it finds the bit.
\<close>

function balloc_scan :: "block \<Rightarrow> nat \<Rightarrow> nat \<Rightarrow> nat \<Rightarrow> nat option" where
  "balloc_scan d sz b bi =
     (if bi < BPB \<and> b + bi < sz
      then (if d (bi div 8) AND bitmask bi = 0 then Some bi else balloc_scan d sz b (bi + 1))
      else None)"
  by pat_completeness auto
termination
  by (relation "measure (\<lambda>(d, sz, b, bi). BPB - bi)") auto

declare balloc_scan.simps [simp del]

text \<open>
  The body of the outer loop of \<open>balloc\<close> for the bitmap block that starts at block
  \<open>b\<close>: \<open>Inl\<close> the block it allocates and returns, or \<open>Inr\<close> the state after
  \<open>brelse(bp)\<close> when the block has no clear bit.
\<close>

definition balloc_block ::
  "params \<Rightarrow> kstate \<Rightarrow> uint \<Rightarrow> nat \<Rightarrow> stop + ((uint \<times> kstate) + kstate)" where
  "balloc_block P s dv b =
     (case bread s dv (BBLOCK (sb s) (word_of_nat b)) of
        Inl e \<Rightarrow> Inl e
      | Inr (bp, s1) \<Rightarrow>
          (case balloc_scan (data (bufs s1 bp)) (unat (sb_size (sb s1))) b 0 of
             Some bi \<Rightarrow>
               (let s2 = set_data s1 bp
                           ((data (bufs s1 bp))
                              (bi div 8 := data (bufs s1 bp) (bi div 8) OR bitmask bi))
                in case log_write P s2 bp of
                     Inl e \<Rightarrow> Inl e
                   | Inr s3 \<Rightarrow>
                       (case bzero P (brelse s3 bp) dv (word_of_nat (b + bi)) of
                          Inl e \<Rightarrow> Inl e
                        | Inr s4 \<Rightarrow> Inr (Inl (word_of_nat (b + bi), s4))))
           | None \<Rightarrow> Inr (Inr (brelse s1 bp))))"

lemma sb_balloc_block: "balloc_block P s dv b = Inr (Inr s') \<Longrightarrow> sb s' = sb s"
  by (auto simp: balloc_block_def Let_def split: option.splits sum.splits dest!: bread_keeps)

text \<open>The outer loop of \<open>balloc\<close> from bitmap block start \<open>b\<close> on.\<close>

function balloc_from :: "params \<Rightarrow> kstate \<Rightarrow> uint \<Rightarrow> nat \<Rightarrow> stop + (uint \<times> kstate)" where
  "balloc_from P s dv b =
     (if b < unat (sb_size (sb s)) then
        (case balloc_block P s dv b of
           Inl e \<Rightarrow> Inl e
         | Inr (Inl r) \<Rightarrow> Inr r
         | Inr (Inr s1) \<Rightarrow> balloc_from P s1 dv (b + BPB))
      else Inl (Panic ''balloc: out of blocks''))"
  by pat_completeness auto
termination
  by (relation "measure (\<lambda>(P, s, dv, b). unat (sb_size (sb s)) - b)")
     (auto simp: BPB_def BSIZE_def dest!: sb_balloc_block)

declare balloc_from.simps [simp del]

definition balloc :: "params \<Rightarrow> kstate \<Rightarrow> uint \<Rightarrow> stop + (uint \<times> kstate)" where
  "balloc P s dv = balloc_from P s dv 0"

definition bfree :: "params \<Rightarrow> kstate \<Rightarrow> uint \<Rightarrow> uint \<Rightarrow> stop + kstate" where
  "bfree P s dv b =
     (case bread s dv (BBLOCK (sb s) b) of
        Inl e \<Rightarrow> Inl e
      | Inr (bp, s1) \<Rightarrow>
          (let bi = unat b mod BPB;
               m = bitmask bi
           in if data (bufs s1 bp) (bi div 8) AND m = 0 then Inl (Panic ''freeing free block'')
              else (let s2 = set_data s1 bp
                               ((data (bufs s1 bp))
                                  (bi div 8 := data (bufs s1 bp) (bi div 8) AND NOT m))
                    in case log_write P s2 bp of
                         Inl e \<Rightarrow> Inl e
                       | Inr s3 \<Rightarrow> Inr (brelse s3 bp))))"

section \<open>Inodes (fs.c)\<close>

text \<open>
  A \<open>struct inode *\<close> is the index of its slot in \<open>icache.inode\<close>; a null pointer is
  not a value of the model.
\<close>

definition upd_inode :: "kstate \<Rightarrow> nat \<Rightarrow> (inode \<Rightarrow> inode) \<Rightarrow> kstate" where
  "upd_inode s ip f = s\<lparr>icache := (icache s)(ip := f (icache s ip))\<rparr>"

text \<open>
  Modelled from the spec: the layout of \<open>struct dinode\<close> (\<open>fs.h\<close>) in an inode block,
  \<open>{type, major, minor, nlink : int16; size : uint32; addrs[NDIRECT+2] : uint32}\<close>,
  slot \<open>k\<close> starting at 32-bit word \<open>k * dinode_words\<close> of the block.
\<close>

primrec wr32s :: "block \<Rightarrow> nat \<Rightarrow> uint list \<Rightarrow> block" where
  "wr32s d w [] = d"
| "wr32s d w (v # vs) = wr32s (wr32 d w v) (Suc w) vs"

definition rd32s :: "block \<Rightarrow> nat \<Rightarrow> nat \<Rightarrow> uint list" where
  "rd32s d w n = map (\<lambda>j. rd32 d (w + j)) [0..<n]"

definition dinode_type :: "block \<Rightarrow> nat \<Rightarrow> short" where
  "dinode_type d k = rd16 d (2 * (k * dinode_words))"

definition dinode_major :: "block \<Rightarrow> nat \<Rightarrow> short" where
  "dinode_major d k = rd16 d (2 * (k * dinode_words) + 1)"

definition dinode_minor :: "block \<Rightarrow> nat \<Rightarrow> short" where
  "dinode_minor d k = rd16 d (2 * (k * dinode_words) + 2)"

definition dinode_nlink :: "block \<Rightarrow> nat \<Rightarrow> short" where
  "dinode_nlink d k = rd16 d (2 * (k * dinode_words) + 3)"

definition dinode_size :: "block \<Rightarrow> nat \<Rightarrow> uint" where
  "dinode_size d k = rd32 d (k * dinode_words + 2)"

definition dinode_addrs :: "block \<Rightarrow> nat \<Rightarrow> uint list" where
  "dinode_addrs d k = rd32s d (k * dinode_words + 3) (NDIRECT + 2)"

definition put_dinode :: "block \<Rightarrow> nat \<Rightarrow> inode \<Rightarrow> block" where
  "put_dinode d k ino =
     (let w = k * dinode_words;
          d1 = wr16 d (2 * w) (i_type ino);
          d2 = wr16 d1 (2 * w + 1) (i_major ino);
          d3 = wr16 d2 (2 * w + 2) (i_minor ino);
          d4 = wr16 d3 (2 * w + 3) (i_nlink ino);
          d5 = wr32 d4 (w + 2) (i_size ino)
      in wr32s d5 (w + 3) (take (NDIRECT + 2) (i_addrs ino)))"

definition iupdate :: "params \<Rightarrow> kstate \<Rightarrow> nat \<Rightarrow> stop + kstate" where
  "iupdate P s ip =
     (let ino = icache s ip in
      case bread s (i_dev ino) (IBLOCK (sb s) (i_inum ino)) of
        Inl e \<Rightarrow> Inl e
      | Inr (bp, s1) \<Rightarrow>
          (let s2 = set_data s1 bp
                      (put_dinode (data (bufs s1 bp)) (unat (i_inum ino) mod IPB) ino)
           in case log_write P s2 bp of
                Inl e \<Rightarrow> Inl e
              | Inr s3 \<Rightarrow> Inr (brelse s3 bp)))"

text \<open>
  The scan of \<open>iget\<close> over the cache from slot \<open>i\<close> on: \<open>Inl\<close> the slot that holds the
  inode, or \<open>Inr\<close> the first empty slot seen (the variable \<open>empty\<close>).
\<close>

function iget_scan ::
  "(nat \<Rightarrow> inode) \<Rightarrow> nat \<Rightarrow> uint \<Rightarrow> uint \<Rightarrow> nat \<Rightarrow> nat option \<Rightarrow> nat + nat option" where
  "iget_scan ic n dv inum i empty_slot =
     (if i < n then
        (if i_ref (ic i) > 0 \<and> i_dev (ic i) = dv \<and> i_inum (ic i) = inum then Inl i
         else iget_scan ic n dv inum (i + 1)
                (if empty_slot = None \<and> i_ref (ic i) = 0 then Some i else empty_slot))
      else Inr empty_slot)"
  by pat_completeness auto
termination
  by (relation "measure (\<lambda>(ic, n, dv, inum, i, e). n - i)") auto

declare iget_scan.simps [simp del]

definition iget :: "params \<Rightarrow> kstate \<Rightarrow> uint \<Rightarrow> uint \<Rightarrow> stop + (nat \<times> kstate)" where
  "iget P s dv inum =
     (case iget_scan (icache s) (NINODE P) dv inum 0 None of
        Inl ip \<Rightarrow> Inr (ip, upd_inode s ip (\<lambda>ino. ino\<lparr>i_ref := i_ref ino + 1\<rparr>))
      | Inr None \<Rightarrow> Inl (Panic ''iget: no inodes'')
      | Inr (Some ip) \<Rightarrow>
          Inr (ip, upd_inode s ip (\<lambda>ino. ino\<lparr>i_dev := dv, i_inum := inum, i_ref := 1, i_valid := 0\<rparr>)))"

definition idup :: "kstate \<Rightarrow> nat \<Rightarrow> nat \<times> kstate" where
  "idup s ip = (ip, upd_inode s ip (\<lambda>ino. ino\<lparr>i_ref := i_ref ino + 1\<rparr>))"

definition ilock :: "kstate \<Rightarrow> nat \<Rightarrow> stop + kstate" where
  "ilock s ip =
     (if i_ref (icache s ip) < 1 then Inl (Panic ''ilock'')
      else if i_valid (icache s ip) = 0 then
        (let ino = icache s ip in
         case bread s (i_dev ino) (IBLOCK (sb s) (i_inum ino)) of
           Inl e \<Rightarrow> Inl e
         | Inr (bp, s1) \<Rightarrow>
             (let d = data (bufs s1 bp);
                  k = unat (i_inum ino) mod IPB;
                  s2 = upd_inode s1 ip (\<lambda>ino. ino\<lparr>i_type := dinode_type d k,
                         i_major := dinode_major d k, i_minor := dinode_minor d k,
                         i_nlink := dinode_nlink d k, i_size := dinode_size d k,
                         i_addrs := dinode_addrs d k\<rparr>);
                  s3 = brelse s2 bp;
                  s4 = upd_inode s3 ip (\<lambda>ino. ino\<lparr>i_valid := 1\<rparr>)
              in if i_type (icache s4 ip) = 0 then Inl (Panic ''ilock: no type'') else Inr s4))
      else Inr s)"

text \<open>\<open>iunlock\<close> checks \<open>ip->ref\<close> and releases the sleep-lock, which is not modelled.\<close>

definition iunlock :: "kstate \<Rightarrow> nat \<Rightarrow> stop + kstate" where
  "iunlock s ip = (if i_ref (icache s ip) < 1 then Inl (Panic ''iunlock'') else Inr s)"

subsection \<open>bmap\<close>

definition set_addr :: "kstate \<Rightarrow> nat \<Rightarrow> nat \<Rightarrow> uint \<Rightarrow> kstate" where
  "set_addr s ip i a = upd_inode s ip (\<lambda>ino. ino\<lparr>i_addrs := (i_addrs ino)[i := a]\<rparr>)"

text \<open>
  \<open>if((addr = ip->addrs[i]) == 0) ip->addrs[i] = addr = balloc(ip->dev);\<close>
\<close>

definition bmap_addr :: "params \<Rightarrow> kstate \<Rightarrow> nat \<Rightarrow> nat \<Rightarrow> stop + (uint \<times> kstate)" where
  "bmap_addr P s ip i =
     (let addr = i_addrs (icache s ip) ! i in
      if addr = 0
      then (case balloc P s (i_dev (icache s ip)) of
              Inl e \<Rightarrow> Inl e
            | Inr (a, s1) \<Rightarrow> Inr (a, set_addr s1 ip i a))
      else Inr (addr, s))"

text \<open>
  \<open>bp = bread(ip->dev, addr); a = (uint*)bp->data;
  if((addr = a[i]) == 0){ a[i] = addr = balloc(ip->dev); log_write(bp); } brelse(bp);\<close>
\<close>

definition bmap_slot :: "params \<Rightarrow> kstate \<Rightarrow> nat \<Rightarrow> uint \<Rightarrow> nat \<Rightarrow> stop + (uint \<times> kstate)" where
  "bmap_slot P s ip blk i =
     (case bread s (i_dev (icache s ip)) blk of
        Inl e \<Rightarrow> Inl e
      | Inr (bp, s1) \<Rightarrow>
          (let addr = rd32 (data (bufs s1 bp)) i
           in if addr = 0
              then (case balloc P s1 (i_dev (icache s1 ip)) of
                      Inl e \<Rightarrow> Inl e
                    | Inr (a, s2) \<Rightarrow>
                        (let s3 = set_data s2 bp (wr32 (data (bufs s2 bp)) i a)
                         in case log_write P s3 bp of
                              Inl e \<Rightarrow> Inl e
                            | Inr s4 \<Rightarrow> Inr (a, brelse s4 bp)))
              else Inr (addr, brelse s1 bp)))"

definition bmap :: "params \<Rightarrow> kstate \<Rightarrow> nat \<Rightarrow> uint \<Rightarrow> stop + (uint \<times> kstate)" where
  "bmap P s ip bn =
     (if unat bn < NDIRECT then bmap_addr P s ip (unat bn)
      else
        (let bn1 = bn - word_of_nat NDIRECT in
         if unat bn1 < NINDIRECT then
           (case bmap_addr P s ip NDIRECT of
              Inl e \<Rightarrow> Inl e
            | Inr (addr, s1) \<Rightarrow> bmap_slot P s1 ip addr (unat bn1))
         else
           (let bn2 = bn1 - word_of_nat NINDIRECT in
            if unat bn2 < NINDIRECT * NINDIRECT then
              (case bmap_addr P s ip (NDIRECT + 1) of
                 Inl e \<Rightarrow> Inl e
               | Inr (addr, s1) \<Rightarrow>
                   (case bmap_slot P s1 ip addr (unat bn2 div NINDIRECT) of
                      Inl e \<Rightarrow> Inl e
                    | Inr (addr2, s2) \<Rightarrow> bmap_slot P s2 ip addr2 (unat bn2 mod NINDIRECT)))
            else Inl (Panic ''bmap: out of range''))))"

subsection \<open>itrunc and iput\<close>

text \<open>The loop over the direct addresses, from \<open>i\<close> on.\<close>

function itrunc_direct :: "params \<Rightarrow> kstate \<Rightarrow> nat \<Rightarrow> nat \<Rightarrow> stop + kstate" where
  "itrunc_direct P s ip i =
     (if i < NDIRECT then
        (if i_addrs (icache s ip) ! i \<noteq> 0
         then (case bfree P s (i_dev (icache s ip)) (i_addrs (icache s ip) ! i) of
                 Inl e \<Rightarrow> Inl e
               | Inr s1 \<Rightarrow> itrunc_direct P (set_addr s1 ip i 0) ip (i + 1))
         else itrunc_direct P s ip (i + 1))
      else Inr s)"
  by pat_completeness auto
termination
  by (relation "measure (\<lambda>(P, s, ip, i). NDIRECT - i)") auto

declare itrunc_direct.simps [simp del]

text \<open>
  \<open>for(j = 0; j < NINDIRECT; j++) if(a[j]) bfree(ip->dev, a[j]);\<close> with \<open>a\<close> the data of
  the buffer \<open>bp\<close>, read where the loop reads it.
\<close>

function itrunc_slots :: "params \<Rightarrow> kstate \<Rightarrow> nat \<Rightarrow> nat \<Rightarrow> nat \<Rightarrow> stop + kstate" where
  "itrunc_slots P s ip bp j =
     (if j < NINDIRECT then
        (if rd32 (data (bufs s bp)) j \<noteq> 0
         then (case bfree P s (i_dev (icache s ip)) (rd32 (data (bufs s bp)) j) of
                 Inl e \<Rightarrow> Inl e
               | Inr s1 \<Rightarrow> itrunc_slots P s1 ip bp (j + 1))
         else itrunc_slots P s ip bp (j + 1))
      else Inr s)"
  by pat_completeness auto
termination
  by (relation "measure (\<lambda>(P, s, ip, bp, j). NINDIRECT - j)") auto

declare itrunc_slots.simps [simp del]

text \<open>The loop over the doubly-indirect block \<open>bp\<close>, from \<open>j\<close> on.\<close>

function itrunc_double :: "params \<Rightarrow> kstate \<Rightarrow> nat \<Rightarrow> nat \<Rightarrow> nat \<Rightarrow> stop + kstate" where
  "itrunc_double P s ip bp j =
     (if j < NINDIRECT then
        (if rd32 (data (bufs s bp)) j \<noteq> 0
         then (case bread s (i_dev (icache s ip)) (rd32 (data (bufs s bp)) j) of
                 Inl e \<Rightarrow> Inl e
               | Inr (bp_2, s1) \<Rightarrow>
                   (case itrunc_slots P s1 ip bp_2 0 of
                      Inl e \<Rightarrow> Inl e
                    | Inr s2 \<Rightarrow>
                        (let s3 = brelse s2 bp_2
                         in case bfree P s3 (i_dev (icache s3 ip)) (rd32 (data (bufs s3 bp)) j) of
                              Inl e \<Rightarrow> Inl e
                            | Inr s4 \<Rightarrow> itrunc_double P s4 ip bp (j + 1))))
         else itrunc_double P s ip bp (j + 1))
      else Inr s)"
  by pat_completeness auto
termination
  by (relation "measure (\<lambda>(P, s, ip, bp, j). NINDIRECT - j)") auto

declare itrunc_double.simps [simp del]

definition itrunc :: "params \<Rightarrow> kstate \<Rightarrow> nat \<Rightarrow> stop + kstate" where
  "itrunc P s ip =
     (case itrunc_direct P s ip 0 of
        Inl e \<Rightarrow> Inl e
      | Inr s1 \<Rightarrow>
          (case (if i_addrs (icache s1 ip) ! NDIRECT \<noteq> 0
                 then (case bread s1 (i_dev (icache s1 ip)) (i_addrs (icache s1 ip) ! NDIRECT) of
                         Inl e \<Rightarrow> Inl e
                       | Inr (bp, s2) \<Rightarrow>
                           (case itrunc_slots P s2 ip bp 0 of
                              Inl e \<Rightarrow> Inl e
                            | Inr s3 \<Rightarrow>
                                (let s4 = brelse s3 bp
                                 in case bfree P s4 (i_dev (icache s4 ip))
                                           (i_addrs (icache s4 ip) ! NDIRECT) of
                                      Inl e \<Rightarrow> Inl e
                                    | Inr s5 \<Rightarrow> Inr (set_addr s5 ip NDIRECT 0))))
                 else Inr s1) of
             Inl e \<Rightarrow> Inl e
           | Inr s6 \<Rightarrow>
               (case (if i_addrs (icache s6 ip) ! (NDIRECT + 1) \<noteq> 0
                      then (case bread s6 (i_dev (icache s6 ip))
                                   (i_addrs (icache s6 ip) ! (NDIRECT + 1)) of
                              Inl e \<Rightarrow> Inl e
                            | Inr (bp, s7) \<Rightarrow>
                                (case itrunc_double P s7 ip bp 0 of
                                   Inl e \<Rightarrow> Inl e
                                 | Inr s8 \<Rightarrow>
                                     (let s9 = brelse s8 bp
                                      in case bfree P s9 (i_dev (icache s9 ip))
                                                (i_addrs (icache s9 ip) ! (NDIRECT + 1)) of
                                           Inl e \<Rightarrow> Inl e
                                         | Inr s10 \<Rightarrow> Inr (set_addr s10 ip (NDIRECT + 1) 0))))
                      else Inr s6) of
                  Inl e \<Rightarrow> Inl e
                | Inr s11 \<Rightarrow> iupdate P (upd_inode s11 ip (\<lambda>ino. ino\<lparr>i_size := 0\<rparr>)) ip)))"

definition iput :: "params \<Rightarrow> kstate \<Rightarrow> nat \<Rightarrow> stop + kstate" where
  "iput P s ip =
     (case (if i_ref (icache s ip) = 1 \<and> i_valid (icache s ip) \<noteq> 0 \<and> i_nlink (icache s ip) = 0
            then (case itrunc P s ip of
                    Inl e \<Rightarrow> Inl e
                  | Inr s1 \<Rightarrow>
                      (case iupdate P (upd_inode s1 ip (\<lambda>ino. ino\<lparr>i_type := 0\<rparr>)) ip of
                         Inl e \<Rightarrow> Inl e
                       | Inr s2 \<Rightarrow> Inr (upd_inode s2 ip (\<lambda>ino. ino\<lparr>i_valid := 0\<rparr>))))
            else Inr s) of
        Inl e \<Rightarrow> Inl e
      | Inr s3 \<Rightarrow> Inr (upd_inode s3 ip (\<lambda>ino. ino\<lparr>i_ref := i_ref ino - 1\<rparr>)))"

definition iunlockput :: "params \<Rightarrow> kstate \<Rightarrow> nat \<Rightarrow> stop + kstate" where
  "iunlockput P s ip = (case iunlock s ip of Inl e \<Rightarrow> Inl e | Inr s1 \<Rightarrow> iput P s1 ip)"

subsection \<open>readi and writei\<close>

text \<open>
  Modelled from the spec: \<open>either_copyout\<close> and \<open>either_copyin\<close> are the user/kernel
  memory copy helpers, which are not among the sources. A copy to or from a kernel address
  (\<open>user = 0\<close>) is a \<open>memmove\<close> and returns 0; a copy to or from a user address fails
  with \<open>-1\<close> (here \<open>None\<close>) when the address range is not mapped, which the environment
  \<open>copy_ok\<close> decides. \<open>mem_at\<close> is the memory that \<open>either_copyin\<close> reads. A copy out
  is recorded as the destination address with the bytes stored there.
\<close>

record memenv =
  copy_ok :: "64 word \<Rightarrow> nat \<Rightarrow> bool"
  mem_at :: "64 word \<Rightarrow> uchar"



definition either_copyin :: "memenv \<Rightarrow> int \<Rightarrow> 64 word \<Rightarrow> nat \<Rightarrow> uchar list option" where
  "either_copyin M user_src src len =
     (if user_src \<noteq> 0 \<and> \<not> copy_ok M src len then None
      else Some (map (\<lambda>i. mem_at M (src + word_of_nat i)) [0..<len]))"


definition put_bytes :: "block \<Rightarrow> nat \<Rightarrow> uchar list \<Rightarrow> block" where
  "put_bytes d ofs bs = (\<lambda>i. if ofs \<le> i \<and> i < ofs + length bs then bs ! (i - ofs) else d i)"

text \<open>\<open>m = min(n - tot, BSIZE - off%BSIZE)\<close>, in unsigned 32-bit arithmetic.\<close>

definition chunk :: "uint \<Rightarrow> uint \<Rightarrow> uint \<Rightarrow> uint" where
  "chunk n tot off = min (n - tot) (word_of_nat BSIZE - off mod word_of_nat BSIZE)"

lemma chunk_step:
  assumes "tot < n"
  shows "0 < unat (chunk n tot off) \<and> unat (tot + chunk n tot off) = unat tot + unat (chunk n tot off)
         \<and> unat tot + unat (chunk n tot off) \<le> unat n"
proof -
  have a: "unat (n - tot) = unat n - unat tot" and b: "0 < unat n - unat tot"
    using assms by (simp_all add: unat_sub word_less_nat_alt word_le_nat_alt)
  have c: "unat (off mod 1024) < 1024"
    by (simp add: unat_mod)
  have d: "unat ((1024 :: uint) - off mod 1024) = 1024 - unat (off mod 1024)"
    using c by (subst unat_sub) (simp_all add: word_le_nat_alt)
  have m: "unat (chunk n tot off) = min (unat n - unat tot) (1024 - unat (off mod 1024))"
    by (simp add: chunk_def BSIZE_def a d min_def word_le_nat_alt)
  have "unat tot + unat (chunk n tot off) \<le> unat n"
    using b by (simp add: m)
  moreover have "unat n < 2 ^ 32" using unsigned_less [of n] by simp
  ultimately have "unat (tot + chunk n tot off) = unat tot + unat (chunk n tot off)"
    by (simp add: unat_add_lem [THEN iffD1])
  with b c m \<open>unat tot + unat (chunk n tot off) \<le> unat n\<close> show ?thesis by simp
qed

lemma chunk_measure:
  "tot < n \<Longrightarrow> unat n - unat (tot + chunk n tot off) < unat n - unat tot"
  using chunk_step [of tot n off] by linarith





text \<open>
  The body of the loop of \<open>writei\<close>: \<open>None\<close> when \<open>either_copyin\<close> fails and the loop
  breaks.
\<close>

definition writei_step ::
  "params \<Rightarrow> memenv \<Rightarrow> nat \<Rightarrow> int \<Rightarrow> uint \<Rightarrow> kstate \<Rightarrow> 64 word \<Rightarrow> uint \<Rightarrow> uint
     \<Rightarrow> stop + (bool \<times> kstate)" where
  "writei_step P M ip user_src n s src off tot =
     (case bmap P s ip (off div word_of_nat BSIZE) of
        Inl e \<Rightarrow> Inl e
      | Inr (addr, s1) \<Rightarrow>
          (case bread s1 (i_dev (icache s1 ip)) addr of
             Inl e \<Rightarrow> Inl e
           | Inr (bp, s2) \<Rightarrow>
               (let m = chunk n tot off
                in case either_copyin M user_src src (unat m) of
                     None \<Rightarrow> Inr (False, brelse s2 bp)
                   | Some bs \<Rightarrow>
                       (let s3 = set_data s2 bp
                                   (put_bytes (data (bufs s2 bp))
                                      (unat (off mod word_of_nat BSIZE)) bs)
                        in case log_write P s3 bp of
                             Inl e \<Rightarrow> Inl e
                           | Inr s4 \<Rightarrow> Inr (True, brelse s4 bp)))))"

text \<open>
  The loop of \<open>writei\<close>; it returns \<open>tot\<close> and \<open>off\<close> as they are when the loop ends or
  breaks.
\<close>

function writei_loop ::
  "params \<Rightarrow> memenv \<Rightarrow> nat \<Rightarrow> int \<Rightarrow> uint \<Rightarrow> kstate \<Rightarrow> 64 word \<Rightarrow> uint \<Rightarrow> uint
     \<Rightarrow> stop + (uint \<times> uint \<times> kstate)" where
  "writei_loop P M ip user_src n s src off tot =
     (if tot < n then
        (case writei_step P M ip user_src n s src off tot of
           Inl e \<Rightarrow> Inl e
         | Inr (False, s1) \<Rightarrow> Inr (tot, off, s1)
         | Inr (True, s1) \<Rightarrow>
             writei_loop P M ip user_src n s1 (src + ucast (chunk n tot off))
               (off + chunk n tot off) (tot + chunk n tot off))
      else Inr (tot, off, s))"
  by pat_completeness auto
termination
  by (relation "measure (\<lambda>(P, M, ip, user_src, n, s, src, off, tot). unat n - unat tot)")
     (auto simp: chunk_measure)

declare writei_loop.simps [simp del]

definition writei ::
  "params \<Rightarrow> memenv \<Rightarrow> kstate \<Rightarrow> nat \<Rightarrow> int \<Rightarrow> 64 word \<Rightarrow> uint \<Rightarrow> uint
     \<Rightarrow> stop + (int \<times> kstate)" where
  "writei P M s ip user_src src off n =
     (if off > i_size (icache s ip) \<or> off + n < off then Inr (- 1, s)
      else if unat (off + n) > MAXFILE * BSIZE then Inr (- 1, s)
      else
        (case writei_loop P M ip user_src n s src off 0 of
           Inl e \<Rightarrow> Inl e
         | Inr (tot, off1, s1) \<Rightarrow>
             (let s2 = (if off1 > i_size (icache s1 ip)
                        then upd_inode s1 ip (\<lambda>ino. ino\<lparr>i_size := off1\<rparr>) else s1)
              in case iupdate P s2 ip of
                   Inl e \<Rightarrow> Inl e
                 | Inr s3 \<Rightarrow> Inr (sint tot, s3))))"

section \<open>Views of the state for the statements\<close>





text \<open>
  The block map of an inode as the disk has it (every \<open>bread\<close> reads the disk):
  \<open>lookup1\<close> and \<open>lookup2\<close> are the slots of the indirect and of the doubly-indirect
  blocks for the block index \<open>bn\<close>, \<open>blockof\<close> is the block of index \<open>bn\<close>, \<open>mapped\<close>
  says that all addresses on the path to it are present, and \<open>file_byte\<close> is the byte
  of the file at an offset.
\<close>

definition lookup1 :: "kstate \<Rightarrow> nat \<Rightarrow> nat \<Rightarrow> uint" where
  "lookup1 s ip bn = rd32 (disk s (i_addrs (icache s ip) ! NDIRECT)) (bn - NDIRECT)"

definition lookup2_l1 :: "kstate \<Rightarrow> nat \<Rightarrow> nat \<Rightarrow> uint" where
  "lookup2_l1 s ip bn =
     rd32 (disk s (i_addrs (icache s ip) ! (NDIRECT + 1))) ((bn - NDIRECT - NINDIRECT) div NINDIRECT)"

definition lookup2 :: "kstate \<Rightarrow> nat \<Rightarrow> nat \<Rightarrow> uint" where
  "lookup2 s ip bn =
     rd32 (disk s (lookup2_l1 s ip bn)) ((bn - NDIRECT - NINDIRECT) mod NINDIRECT)"

definition blockof :: "kstate \<Rightarrow> nat \<Rightarrow> nat \<Rightarrow> uint" where
  "blockof s ip bn =
     (if bn < NDIRECT then i_addrs (icache s ip) ! bn
      else if bn < NDIRECT + NINDIRECT then lookup1 s ip bn
      else lookup2 s ip bn)"

definition mapped :: "kstate \<Rightarrow> nat \<Rightarrow> nat \<Rightarrow> bool" where
  "mapped s ip bn \<longleftrightarrow>
     bn < MAXFILE \<and>
     (if bn < NDIRECT then i_addrs (icache s ip) ! bn \<noteq> 0
      else if bn < NDIRECT + NINDIRECT
      then i_addrs (icache s ip) ! NDIRECT \<noteq> 0 \<and> lookup1 s ip bn \<noteq> 0
      else i_addrs (icache s ip) ! (NDIRECT + 1) \<noteq> 0 \<and> lookup2_l1 s ip bn \<noteq> 0 \<and>
           lookup2 s ip bn \<noteq> 0)"

definition file_byte :: "kstate \<Rightarrow> nat \<Rightarrow> nat \<Rightarrow> uchar" where
  "file_byte s ip k = disk s (blockof s ip (k div BSIZE)) (k mod BSIZE)"






section \<open>Examples\<close>

text \<open>
  Example values of the constants, and an idle log over a cache of eight free buffers that
  are linked in bucket 0, as \<open>binit\<close> leaves them.
\<close>

definition P_ex :: params where
  "P_ex = \<lparr>MAXOPBLOCKS = 10, LOGSIZE = 30, NINODE = 50\<rparr>"

definition buf0 :: buf where
  "buf0 = \<lparr>valid = 0, dev = 0, blockno = 0, refcnt = 0, lastuse = 0, data = (\<lambda>_. 0)\<rparr>"

definition log0 :: log where
  "log0 = \<lparr>log_start = 2, log_size = 30, outstanding = 0, committing = 0, log_dev = 1,
           lh = \<lparr>lh_n = 0, lh_block = replicate 30 0\<rparr>\<rparr>"

definition sb0 :: superblock where
  "sb0 = \<lparr>sb_magic = 0x10203040, sb_size = 200, sb_nblocks = 141, sb_ninodes = 200,
           sb_nlog = 30, sb_logstart = 2, sb_inodestart = 32, sb_bmapstart = 58\<rparr>"

definition inode0 :: inode where
  "inode0 = \<lparr>i_dev = 0, i_inum = 0, i_ref = 0, i_valid = 0, i_type = 0, i_major = 0,
              i_minor = 0, i_nlink = 0, i_size = 0, i_addrs = replicate 13 0\<rparr>"

definition k0 :: kstate where
  "k0 = \<lparr>klog = log0, bufs = (\<lambda>_. buf0),
         buckets = [[0, 1, 2, 3, 4, 5, 6, 7], []] @ replicate 11 [],
         disk = (\<lambda>_ _. 0), dwrites = [], ticks = 0,
         sb = sb0, icache = (\<lambda>_. inode0)\<rparr>"

definition k_op :: kstate where
  "k_op = k0\<lparr>klog := log0\<lparr>outstanding := 1\<rparr>,
             bufs := (\<lambda>_. buf0)(7 := buf0\<lparr>blockno := 7, valid := 1, refcnt := 1\<rparr>)\<rparr>"

text \<open>
  A log with one entry, block 40. Buffer 0 caches block 40 in bucket \<open>BUFMAP_HASH(1, 40) = 9\<close>,
  was modified to hold the byte 7 throughout and is pinned by \<open>log_write\<close>; the disk
  is still all zero. Buffers 1, 2 and 3 are free in bucket 0.
\<close>

definition k_c :: kstate where
  "k_c = k0\<lparr>klog := log0\<lparr>lh := \<lparr>lh_n = 1, lh_block = [40] @ replicate 29 0\<rparr>\<rparr>,
            bufs := (\<lambda>_. buf0)(0 := buf0\<lparr>valid := 1, dev := 1, blockno := 40, refcnt := 1,
                                     data := (\<lambda>_. 7)\<rparr>),
            buckets := [[1, 2, 3], [], [], [], [], [], [], [], [], [0], [], [], []]\<rparr>"

text \<open>
  Two buffer caches. In \<open>bc_hit\<close> buffer 0 caches block 5 of device 1 in bucket 0 and is
  in use, buffer 1 is free in bucket 1. In \<open>bc_lru\<close> the free buffers 0 and 1 are in
  bucket 0 with \<open>lastuse\<close> 5 and 3.
\<close>

definition bc_hit :: bcache where
  "bc_hit = [[(0, buf0\<lparr>valid := 1, dev := 1, blockno := 5, refcnt := 1\<rparr>)],
             [(1, buf0\<lparr>valid := 1, dev := 1, blockno := 6\<rparr>)]] @ replicate 11 []"

definition bc_lru :: bcache where
  "bc_lru = [[(0, buf0\<lparr>valid := 1, dev := 1, blockno := 5, lastuse := 5\<rparr>),
              (1, buf0\<lparr>valid := 1, dev := 1, blockno := 18, lastuse := 3\<rparr>)],
             []] @ replicate 11 []"


definition k_r :: kstate where
  "k_r = k0\<lparr>klog := log0\<lparr>outstanding := 1\<rparr>,
            disk := (\<lambda>_ _. 0)(100 := (\<lambda>_. 7), 103 := (\<lambda>_. 9)),
            icache := (\<lambda>_. inode0)(0 := inode0\<lparr>i_dev := 1, i_inum := 1, i_ref := 1, i_valid := 1,
                 i_type := 2, i_nlink := 1, i_size := 2000,
                 i_addrs := [100, 103, 0, 0, 0, 0, 0, 0, 0, 0, 0, 0, 0]\<rparr>)\<rparr>"
section \<open>Properties of the buffer cache\<close>

lemma BUFMAP_HASH_examples: "BUFMAP_HASH 1 5 = 0" "BUFMAP_HASH 1 6 = 1"
  by (simp_all add: BUFMAP_HASH_def NBUFMAP_BUCKET_def)

text \<open>
  C2. \<open>bget(1, 5)\<close> on \<open>bc_hit\<close>, where buffer 0 has the identity (1, 5) in bucket
  \<open>BUFMAP_HASH(1, 5) = 0\<close> with \<open>refcnt = 1\<close>: the two scans of the bucket leave buffer 0
  with \<open>refcnt = 3\<close>, the eviction scan runs, and the call returns buffer 1, recycled
  from bucket 1 to the identity (1, 5) with \<open>refcnt = 1\<close> and \<open>valid = 0\<close>. The claim
  has the call return buffer 0 with \<open>refcnt = 2\<close> and leave buffer 1 alone.
\<close>

theorem bget_hit_example:
  "bget bc_hit 1 5 =
     Inr (1, [[(1, buf0\<lparr>valid := 0, dev := 1, blockno := 5, refcnt := 1\<rparr>),
               (0, buf0\<lparr>valid := 1, dev := 1, blockno := 5, refcnt := 3\<rparr>)],
              []] @ replicate 11 [])"
  by (simp add: bget_def BUFMAP_HASH_examples bc_hit_def buf0_def bget_rescan_def Let_def
        scan_buckets.simps NBUFMAP_BUCKET_def)

text \<open>
  C3. \<open>bget(1, 6)\<close> on \<open>bc_lru\<close>, where block 6 is not cached and the free buffers 0
  and 1 have \<open>lastuse\<close> 5 and 3: the scan compares the \<open>lastuse\<close> of the node before
  the candidate, so it keeps buffer 0, and the call recycles buffer 0 (\<open>lastuse = 5\<close>).
  The claim has it recycle a buffer of least \<open>lastuse\<close>, which is buffer 1.
\<close>

theorem bget_lru_example:
  "bget bc_lru 1 6 =
     Inr (0, [[(1, buf0\<lparr>valid := 1, dev := 1, blockno := 18, lastuse := 3\<rparr>)],
              [(0, buf0\<lparr>valid := 0, dev := 1, blockno := 6, refcnt := 1, lastuse := 5\<rparr>)]]
             @ replicate 11 [])"
  by (simp add: bget_def BUFMAP_HASH_examples bc_lru_def buf0_def bget_rescan_def Let_def
        scan_buckets.simps NBUFMAP_BUCKET_def)






subsection \<open>The eviction scan\<close>







subsection \<open>bget on a well-formed cache\<close>







subsection \<open>bread on a well-formed cache\<close>




section \<open>Properties of the log\<close>

subsection \<open>The scan of log_write\<close>

lemma log_scan_step:
  "i < lh_n h \<Longrightarrow> lh_block h ! nat i \<noteq> bno \<Longrightarrow> log_scan h bno i = log_scan h bno (i + 1)"
  by (subst log_scan.simps) simp

lemma log_scan_stop:
  "\<not> (i < lh_n h \<and> lh_block h ! nat i \<noteq> bno) \<Longrightarrow> log_scan h bno i = i"
  by (subst log_scan.simps) auto

lemma log_scan_bounds:
  "i \<le> lh_n h \<Longrightarrow> i \<le> log_scan h bno i \<and> log_scan h bno i \<le> lh_n h"
proof (induction h bno i rule: log_scan.induct)
  case (1 h bno i)
  show ?case
  proof (cases "i < lh_n h \<and> lh_block h ! nat i \<noteq> bno")
    case True
    with 1 show ?thesis by (simp add: log_scan_step)
  next
    case False
    with 1 show ?thesis by (simp add: log_scan_stop)
  qed
qed

lemma log_scan_hit:
  "log_scan h bno i < lh_n h \<Longrightarrow> lh_block h ! nat (log_scan h bno i) = bno"
proof (induction h bno i rule: log_scan.induct)
  case (1 h bno i)
  show ?case
  proof (cases "i < lh_n h \<and> lh_block h ! nat i \<noteq> bno")
    case True
    with 1 show ?thesis by (simp add: log_scan_step)
  next
    case False
    with 1 show ?thesis by (auto simp add: log_scan_stop)
  qed
qed

lemma log_scan_miss:
  "i \<le> lh_n h \<Longrightarrow>
   (log_scan h bno i = lh_n h) = (\<forall>j. i \<le> j \<and> j < lh_n h \<longrightarrow> lh_block h ! nat j \<noteq> bno)"
proof (induction h bno i rule: log_scan.induct)
  case (1 h bno i)
  show ?case
  proof (cases "i < lh_n h")
    case False
    with 1 have "i = lh_n h" and "log_scan h bno i = i" by (simp_all add: log_scan_stop)
    then show ?thesis by auto
  next
    case lt: True
    show ?thesis
    proof (cases "lh_block h ! nat i = bno")
      case True
      with lt have "log_scan h bno i = i" by (simp add: log_scan_stop)
      with lt True show ?thesis by auto
    next
      case False
      have "(\<forall>j. i \<le> j \<and> j < lh_n h \<longrightarrow> lh_block h ! nat j \<noteq> bno)
          = (\<forall>j. i + 1 \<le> j \<and> j < lh_n h \<longrightarrow> lh_block h ! nat j \<noteq> bno)"
        using False by (metis add1_zle_eq order_le_less)
      with 1 lt False show ?thesis by (simp add: log_scan_step)
    qed
  qed
qed

lemma in_set_take_int:
  "0 \<le> n \<Longrightarrow> nat n \<le> length xs \<Longrightarrow>
   (x \<in> set (take (nat n) xs)) = (\<exists>j. 0 \<le> j \<and> j < n \<and> xs ! nat j = x)"
  apply (auto simp: in_set_conv_nth)
   apply (rule_tac x="int i" in exI) apply simp
  apply (rule_tac x="nat j" in exI) apply simp
  done

lemma log_scan_absent:
  assumes "0 \<le> lh_n h" "nat (lh_n h) \<le> length (lh_block h)"
  shows "(log_scan h bno 0 = lh_n h) = (bno \<notin> set (take (nat (lh_n h)) (lh_block h)))"
proof -
  have "(log_scan h bno 0 = lh_n h) = (\<forall>j. 0 \<le> j \<and> j < lh_n h \<longrightarrow> lh_block h ! nat j \<noteq> bno)"
    using assms by (intro log_scan_miss) simp
  also have "\<dots> = (bno \<notin> set (take (nat (lh_n h)) (lh_block h)))"
    using assms by (subst in_set_take_int) auto
  finally show ?thesis .
qed

lemma log_write_cases:
  assumes "0 \<le> lh_n (lh (klog s))"
    and "nat (lh_n (lh (klog s))) \<le> length (lh_block (lh (klog s)))"
  shows
    "log_write P s b =
       (if lh_n (lh (klog s)) \<ge> LOGSIZE P \<or> lh_n (lh (klog s)) \<ge> log_size (klog s) - 1
        then Inl (Panic ''too big a transaction'')
        else if outstanding (klog s) < 1 then Inl (Panic ''log_write outside of trans'')
        else if blockno (bufs s b)
                  \<in> set (take (nat (lh_n (lh (klog s)))) (lh_block (lh (klog s))))
        then Inr s
        else Inr (s\<lparr>klog := (klog s)\<lparr>lh :=
                    \<lparr>lh_n = lh_n (lh (klog s)) + 1,
                     lh_block = (lh_block (lh (klog s)))
                                  [nat (lh_n (lh (klog s))) := blockno (bufs s b)]\<rparr>\<rparr>,
                   bufs := (bufs s)(b := (bufs s b)\<lparr>refcnt := refcnt (bufs s b) + 1\<rparr>)\<rparr>))"
proof -
  let ?h = "lh (klog s)" and ?bno = "blockno (bufs s b)"
  let ?i = "log_scan ?h ?bno 0"
  have abs: "(?i = lh_n ?h) = (?bno \<notin> set (take (nat (lh_n ?h)) (lh_block ?h)))"
    using assms by (intro log_scan_absent) auto
  have hit: "?i \<noteq> lh_n ?h \<Longrightarrow> (lh_block ?h)[nat ?i := ?bno] = lh_block ?h"
  proof -
    assume "?i \<noteq> lh_n ?h"
    with log_scan_bounds [of 0 ?h ?bno] assms have "?i < lh_n ?h" by simp
    then have "lh_block ?h ! nat ?i = ?bno" by (rule log_scan_hit)
    then show ?thesis by (metis list_update_id)
  qed
  show ?thesis
    using abs hit by (auto simp: log_write_def Let_def bpin_def)
qed

subsection \<open>The log record is kept by the loops\<close>

lemma klog_write_log_from: "write_log_from tail s = Inr s' \<Longrightarrow> klog s' = klog s"
proof (induction tail s rule: write_log_from.induct)
  case (1 tail s)
  show ?case
  proof (cases "tail < lh_n (lh (klog s))")
    case True
    with "1.prems" obtain s1 where
      b: "write_log_body tail s = Inr s1" and r: "write_log_from (tail + 1) s1 = Inr s'"
      by (subst (asm) write_log_from.simps) (auto split: sum.splits)
    from "1.IH" [OF True b r] klog_write_log_body [OF b] show ?thesis by simp
  next
    case False
    with "1.prems" show ?thesis by (subst (asm) write_log_from.simps) simp
  qed
qed

lemma klog_install_trans_from:
  "install_trans_from r tail s = Inr s' \<Longrightarrow> klog s' = klog s"
proof (induction r tail s rule: install_trans_from.induct)
  case (1 r tail s)
  show ?case
  proof (cases "tail < lh_n (lh (klog s))")
    case True
    with "1.prems" obtain s1 where
      b: "install_trans_body r tail s = Inr s1"
      and rest: "install_trans_from r (tail + 1) s1 = Inr s'"
      by (subst (asm) install_trans_from.simps) (auto split: sum.splits)
    from "1.IH" [OF True b rest] klog_install_trans_body [OF b] show ?thesis by simp
  next
    case False
    with "1.prems" show ?thesis by (subst (asm) install_trans_from.simps) simp
  qed
qed

lemma klog_write_head: "write_head s = Inr s' \<Longrightarrow> klog s' = klog s"
  by (auto simp: write_head_def Let_def split: sum.splits dest!: bread_keeps)

lemma klog_commit:
  "commit s = Inr s' \<Longrightarrow>
   klog s' = (if lh_n (lh (klog s)) > 0 then (klog s)\<lparr>lh := (lh (klog s))\<lparr>lh_n := 0\<rparr>\<rparr>
              else klog s)"
  by (auto simp: commit_def write_log_def install_trans_def split: if_splits sum.splits
           dest!: klog_write_log_from klog_write_head klog_install_trans_from)

subsection \<open>The commit\<close>

lemma BUFMAP_HASH_log_examples:
  "BUFMAP_HASH 1 40 = 9" "BUFMAP_HASH 1 3 = 11" "BUFMAP_HASH 1 2 = 10"
  by (simp_all add: BUFMAP_HASH_def NBUFMAP_BUCKET_def)

text \<open>
  C1. \<open>commit()\<close> on \<open>k_c\<close>, where \<open>lh.n = 1\<close>, \<open>lh.block[0] = 40\<close>, the cached and
  pinned buffer 0 of block 40 holds the byte 7 throughout and the disk holds zeros. The
  call returns and writes the blocks 3, 2, 40, 2 in this order (log block, header, home
  block, header), which is the order of the claim. But each \<open>bread\<close> of block 40 goes
  through \<open>bget\<close>, which counts the hit on buffer 0 and then recycles another buffer and
  reads the block from the disk: the log block and the home block are written with the
  zeros of the disk, not with the content of the cached buffer, block 40 on the disk is
  still zero after the commit, buffer 0 still holds the 7s with \<open>refcnt\<close> gone from 1 to
  5, and the \<open>bunpin\<close> and \<open>brelse\<close> of \<open>install_trans\<close> take buffer 3 from \<open>refcnt\<close> 1
  to \<open>-1\<close>. The claim has the content of the cached buffer copied to the log and to the
  home block, and the pinned buffer unpinned.
\<close>

theorem commit_example:
  "case commit k_c of
     Inl e \<Rightarrow> False
   | Inr s' \<Rightarrow>
       map fst (dwrites s') = [3, 2, 40, 2] \<and>
       snd (dwrites s' ! 0) = (\<lambda>_. 0) \<and> snd (dwrites s' ! 2) = (\<lambda>_. 0) \<and>
       disk s' 40 = (\<lambda>_. 0) \<and>
       data (bufs s' 0) = (\<lambda>_. 7) \<and> refcnt (bufs s' 0) = 5 \<and> refcnt (bufs s' 3) = - 1"
  by (simp add: commit_def write_log_def write_log_from.simps write_log_body_def
        write_head_def install_trans_def install_trans_from.simps install_trans_body_def
        bread_def bget_def bcache_of_def store_bcache_def virtio_disk_rw_def Let_def
        bget_rescan_def scan_buckets.simps NBUFMAP_BUCKET_def BUFMAP_HASH_log_examples ldev_def
        set_data_def bwrite_def brelse_def bunpin_def
        k_c_def k0_def log0_def buf0_def)

subsection \<open>Log absorption\<close>

text \<open>
  C4. With a log header of \<open>n \<ge> 0\<close> entries in its array of \<open>LOGSIZE\<close> slots:
  \<open>log_write(b)\<close> panics exactly when \<open>n \<ge> LOGSIZE\<close>, \<open>n \<ge> log.size - 1\<close> or
  \<open>outstanding < 1\<close>. Otherwise, if \<open>b->blockno\<close> is among \<open>lh.block[0..n)\<close> the call
  returns with the whole state unchanged (\<open>lh.n\<close> as it was, no new pin); if it is
  absent the call appends it, adds one to \<open>b->refcnt\<close>, leaves the other buffers as they
  were and adds one to \<open>lh.n\<close>. A second \<open>log_write(b)\<close> after one that returned
  changes nothing: two calls for one block take one slot.
\<close>

theorem log_write_absorption:
  assumes "0 \<le> lh_n (lh (klog s))"
    and "length (lh_block (lh (klog s))) = nat (LOGSIZE P)"
  shows
    "(\<not> (lh_n (lh (klog s)) < LOGSIZE P \<and> lh_n (lh (klog s)) < log_size (klog s) - 1
          \<and> 1 \<le> outstanding (klog s))
        \<longrightarrow> (\<exists>m. log_write P s b = Inl (Panic m))) \<and>
     (lh_n (lh (klog s)) < LOGSIZE P \<and> lh_n (lh (klog s)) < log_size (klog s) - 1
          \<and> 1 \<le> outstanding (klog s) \<longrightarrow>
        (blockno (bufs s b) \<in> set (take (nat (lh_n (lh (klog s)))) (lh_block (lh (klog s))))
           \<longrightarrow> log_write P s b = Inr s) \<and>
        (blockno (bufs s b) \<notin> set (take (nat (lh_n (lh (klog s)))) (lh_block (lh (klog s))))
           \<longrightarrow> (\<exists>s'. log_write P s b = Inr s' \<and>
                  lh_n (lh (klog s')) = lh_n (lh (klog s)) + 1 \<and>
                  take (nat (lh_n (lh (klog s'))))  (lh_block (lh (klog s')))
                    = take (nat (lh_n (lh (klog s)))) (lh_block (lh (klog s))) @ [blockno (bufs s b)] \<and>
                  refcnt (bufs s' b) = refcnt (bufs s b) + 1 \<and>
                  (\<forall>c. c \<noteq> b \<longrightarrow> bufs s' c = bufs s c)))) \<and>
     (\<forall>s1 s2. log_write P s b = Inr s1 \<and> log_write P s1 b = Inr s2 \<longrightarrow> s2 = s1)"
proof -
  let ?n = "lh_n (lh (klog s))" and ?blk = "lh_block (lh (klog s))" and ?bno = "blockno (bufs s b)"
  have c: "log_write P s b =
       (if ?n \<ge> LOGSIZE P \<or> ?n \<ge> log_size (klog s) - 1
        then Inl (Panic ''too big a transaction'')
        else if outstanding (klog s) < 1 then Inl (Panic ''log_write outside of trans'')
        else if ?bno \<in> set (take (nat ?n) ?blk)
        then Inr s
        else Inr (s\<lparr>klog := (klog s)\<lparr>lh := \<lparr>lh_n = ?n + 1, lh_block = ?blk[nat ?n := ?bno]\<rparr>\<rparr>,
                   bufs := (bufs s)(b := (bufs s b)\<lparr>refcnt := refcnt (bufs s b) + 1\<rparr>)\<rparr>))"
    (is "_ = (if ?big then _ else if ?out then _ else if _ then _ else Inr ?s')")
  proof (cases "?n \<ge> LOGSIZE P")
    case True
    then show ?thesis by (simp add: log_write_def Let_def)
  next
    case False
    with assms show ?thesis by (intro log_write_cases) auto
  qed
  have p1: "\<not> (?n < LOGSIZE P \<and> ?n < log_size (klog s) - 1 \<and> 1 \<le> outstanding (klog s))
        \<longrightarrow> (\<exists>m. log_write P s b = Inl (Panic m))"
    by (auto simp: c)
  have tk: "?n < LOGSIZE P \<Longrightarrow> take (nat (?n + 1)) (?blk[nat ?n := ?bno]) = take (nat ?n) ?blk @ [?bno]"
    using assms by (simp add: nat_add_distrib take_Suc_conv_app_nth)
  have p2: "?n < LOGSIZE P \<and> ?n < log_size (klog s) - 1 \<and> 1 \<le> outstanding (klog s) \<longrightarrow>
        (?bno \<in> set (take (nat ?n) ?blk) \<longrightarrow> log_write P s b = Inr s) \<and>
        (?bno \<notin> set (take (nat ?n) ?blk)
           \<longrightarrow> (\<exists>s'. log_write P s b = Inr s' \<and>
                  lh_n (lh (klog s')) = ?n + 1 \<and>
                  take (nat (lh_n (lh (klog s'))))  (lh_block (lh (klog s')))
                    = take (nat ?n) ?blk @ [?bno] \<and>
                  refcnt (bufs s' b) = refcnt (bufs s b) + 1 \<and>
                  (\<forall>c. c \<noteq> b \<longrightarrow> bufs s' c = bufs s c)))"
    using tk by (auto simp: c)
  have p3: "s2 = s1" if r1: "log_write P s b = Inr s1" and r2: "log_write P s1 b = Inr s2" for s1 s2
  proof -
    from r1 have ok: "?n < LOGSIZE P" by (auto simp: c split: if_splits)
    have in1: "blockno (bufs s1 b) \<in> set (take (nat (lh_n (lh (klog s1)))) (lh_block (lh (klog s1))))"
    proof (cases "?bno \<in> set (take (nat ?n) ?blk)")
      case True
      with r1 have "s1 = s" by (auto simp: c split: if_splits)
      with True show ?thesis by simp
    next
      case False
      with r1 have "s1 = ?s'" by (auto simp: c split: if_splits)
      then show ?thesis using tk [OF ok] by simp
    qed
    have h1: "0 \<le> lh_n (lh (klog s1))"
      and h2: "nat (lh_n (lh (klog s1))) \<le> length (lh_block (lh (klog s1)))"
      using r1 assms by (auto simp: c split: if_splits)
    from r2 in1 show ?thesis
      by (subst (asm) log_write_cases [OF h1 h2]) (auto split: if_splits)
  qed
  from p1 p2 p3 show ?thesis by blast
qed

theorem log_write_absorption_witness:
  "0 \<le> lh_n (lh (klog k_op)) \<and> length (lh_block (lh (klog k_op))) = nat (LOGSIZE P_ex) \<and>
   blockno (bufs k_op 7) \<notin> set (take (nat (lh_n (lh (klog k_op)))) (lh_block (lh (klog k_op)))) \<and>
   (case log_write P_ex k_op 7 of
      Inl e \<Rightarrow> False
    | Inr s1 \<Rightarrow> lh_n (lh (klog s1)) = 1 \<and> refcnt (bufs s1 7) = 2 \<and> log_write P_ex s1 7 = Inr s1)"
  using log_write_absorption [of k_op P_ex 7]
  by (simp add: log_write_def k_op_def k0_def log0_def P_ex_def buf0_def Let_def
        log_scan.simps bpin_def)

subsection \<open>The states of the log\<close>

text \<open>
  What holds between the critical sections: \<open>outstanding\<close> counts the processes inside
  an operation, and \<open>committing\<close> is set exactly while one process holds \<open>do_commit\<close>,
  when no process is inside an operation.
\<close>

definition sys_inv :: "sys \<Rightarrow> bool" where
  "sys_inv x \<longleftrightarrow>
     outstanding (klog (ker x)) = int (inop x) \<and>
     (if committer x then committing (klog (ker x)) = 1 \<and> inop x = 0
      else committing (klog (ker x)) = 0)"

lemma step_inv: "sys_inv x \<Longrightarrow> step P x e = Some (Inr x') \<Longrightarrow> sys_inv x'"
proof (cases e)
  case BeginOp
  assume "sys_inv x" "step P x e = Some (Inr x')"
  with BeginOp show ?thesis
    by (auto simp: sys_inv_def begin_op_def split: if_splits sum.splits)
next
  case EndOp
  assume "sys_inv x" "step P x e = Some (Inr x')"
  with EndOp show ?thesis
    by (auto simp: sys_inv_def end_op_enter_def Let_def split: if_splits sum.splits)
next
  case Commit
  assume "sys_inv x" "step P x e = Some (Inr x')"
  with Commit show ?thesis
    by (auto simp: sys_inv_def end_op_commit_def split: if_splits sum.splits
             dest!: klog_commit)
next
  case (LogWrite b)
  assume "sys_inv x" "step P x e = Some (Inr x')"
  with LogWrite show ?thesis
    by (auto simp: sys_inv_def log_write_def Let_def split: if_splits sum.splits)
qed

lemma run_inv: "sys_inv x \<Longrightarrow> run P es x = Some (Inr x') \<Longrightarrow> sys_inv x'"
proof (induction es arbitrary: x)
  case Nil
  then show ?case by simp
next
  case (Cons e es)
  then show ?case
    by (auto split: option.splits sum.splits dest: step_inv)
qed

lemma begin_op_iff:
  "(begin_op P l = Inr l') =
     (committing l = 0 \<and> lh_n (lh l) + (outstanding l + 1) * MAXOPBLOCKS P \<le> LOGSIZE P \<and>
      l' = l\<lparr>outstanding := outstanding l + 1\<rparr>)"
  by (auto simp: begin_op_def)

lemma end_op_enter_iff:
  "(end_op_enter l = Inr (dc, l')) =
     (committing l = 0 \<and> dc = (outstanding l - 1 = 0) \<and>
      l' = l\<lparr>outstanding := outstanding l - 1,
             committing := (if outstanding l - 1 = 0 then 1 else 0)\<rparr>)"
  by (auto simp: end_op_enter_def Let_def)

text \<open>
  C5. Start from an idle log (\<open>outstanding = 0\<close>, \<open>committing = 0\<close>) and let the
  processes take any sequence of completed steps (\<open>begin_op\<close>, the first critical
  section of \<open>end_op\<close> by a process that is inside an operation, the commit by the
  process that holds \<open>do_commit\<close>, \<open>log_write\<close> inside an operation). Then the log is
  IDLE, ACTIVE or COMMITTING, and \<open>committing\<close> never holds together with
  \<open>outstanding > 0\<close>. A \<open>begin_op\<close> completes exactly when \<open>committing\<close> is clear and
  \<open>lh.n + (outstanding+1)*MAXOPBLOCKS \<le> LOGSIZE\<close>, and then adds one to
  \<open>outstanding\<close>; the first critical section of \<open>end_op\<close> returns exactly when
  \<open>committing\<close> is clear, takes one from \<open>outstanding\<close>, and sets \<open>committing\<close> (and
  \<open>do_commit\<close>) exactly when \<open>outstanding\<close> has dropped to zero.
\<close>

theorem log_state_machine:
  assumes "IDLE (klog s0)"
    and "run P es \<lparr>ker = s0, inop = 0, committer = False\<rparr> = Some (Inr x)"
  shows "(IDLE (klog (ker x)) \<or> ACTIVE (klog (ker x)) \<or> COMMITTING (klog (ker x))) \<and>
         \<not> (committing (klog (ker x)) \<noteq> 0 \<and> outstanding (klog (ker x)) > 0) \<and>
         (\<forall>l l'. (begin_op P l = Inr l') =
            (committing l = 0 \<and>
             lh_n (lh l) + (outstanding l + 1) * MAXOPBLOCKS P \<le> LOGSIZE P \<and>
             l' = l\<lparr>outstanding := outstanding l + 1\<rparr>)) \<and>
         (\<forall>l dc l'. (end_op_enter l = Inr (dc, l')) =
            (committing l = 0 \<and> dc = (outstanding l - 1 = 0) \<and>
             l' = l\<lparr>outstanding := outstanding l - 1,
                    committing := (if outstanding l - 1 = 0 then 1 else 0)\<rparr>))"
proof -
  have "sys_inv \<lparr>ker = s0, inop = 0, committer = False\<rparr>"
    using assms(1) by (simp add: sys_inv_def IDLE_def)
  then have "sys_inv x" using assms(2) by (rule run_inv)
  then have "(IDLE (klog (ker x)) \<or> ACTIVE (klog (ker x)) \<or> COMMITTING (klog (ker x))) \<and>
         \<not> (committing (klog (ker x)) \<noteq> 0 \<and> outstanding (klog (ker x)) > 0)"
    by (auto simp: sys_inv_def IDLE_def ACTIVE_def COMMITTING_def split: if_splits)
  then show ?thesis
    using begin_op_iff end_op_enter_iff by blast
qed

theorem log_state_machine_witness:
  "IDLE (klog k0) \<and>
   (case run P_ex [BeginOp, BeginOp, EndOp, EndOp] \<lparr>ker = k0, inop = 0, committer = False\<rparr> of
      Some (Inr x) \<Rightarrow> COMMITTING (klog (ker x)) \<and>
         \<not> (committing (klog (ker x)) \<noteq> 0 \<and> outstanding (klog (ker x)) > 0)
    | _ \<Rightarrow> False)"
  using log_state_machine [of k0 P_ex "[BeginOp, BeginOp, EndOp, EndOp]"]
  by (simp add: IDLE_def ACTIVE_def COMMITTING_def k0_def log0_def P_ex_def begin_op_def
        end_op_enter_def Let_def)

section \<open>Properties of the inode layer\<close>

subsection \<open>readi\<close>











lemma unat_sub_NDIRECT: "NDIRECT \<le> unat (bn :: uint) \<Longrightarrow> unat (bn - word_of_nat NDIRECT) = unat bn - NDIRECT"
  by (simp add: NDIRECT_def unat_sub word_le_nat_alt)

lemma unat_sub_NINDIRECT:
  "NDIRECT + NINDIRECT \<le> unat (bn :: uint) \<Longrightarrow>
   unat (bn - word_of_nat NDIRECT - word_of_nat NINDIRECT) = unat bn - NDIRECT - NINDIRECT"
proof -
  assume a: "NDIRECT + NINDIRECT \<le> unat bn"
  then have 1: "unat (bn - word_of_nat NDIRECT) = unat bn - NDIRECT"
    by (intro unat_sub_NDIRECT) simp
  have "unat (bn - word_of_nat NDIRECT - word_of_nat NINDIRECT)
         = unat (bn - word_of_nat NDIRECT) - unat (word_of_nat NINDIRECT :: uint)"
    using a 1 by (subst unat_sub) (simp_all add: word_le_nat_alt NINDIRECT_def BSIZE_def)
  then show ?thesis using 1 by (simp add: NINDIRECT_def BSIZE_def)
qed




lemma bmap_out_of_range:
  "MAXFILE \<le> unat bn \<Longrightarrow> bmap P s ip bn = Inl (Panic ''bmap: out of range'')"
proof -
  assume a: "MAXFILE \<le> unat bn"
  then have 0: "NDIRECT + NINDIRECT \<le> unat bn" by (simp add: MAXFILE_def)
  with a have 1: "\<not> unat bn < NDIRECT" "\<not> unat (bn - word_of_nat NDIRECT) < NINDIRECT"
    "\<not> unat (bn - word_of_nat NDIRECT - word_of_nat NINDIRECT) < NINDIRECT * NINDIRECT"
    by (simp_all add: unat_sub_NDIRECT unat_sub_NINDIRECT MAXFILE_def)
  show ?thesis
    using 1 by (simp add: bmap_def Let_def)
qed
















lemma k_r_facts:
  "i_size (icache k_r 0) = 2000" "i_dev (icache k_r 0) = 1"
  "mapped k_r 0 0" "mapped k_r 0 (Suc 0)"
  "blockof k_r 0 0 = 100" "blockof k_r 0 (Suc 0) = 103"
  "disk k_r 100 = (\<lambda>_. 7)" "disk k_r 103 = (\<lambda>_. 9)"
  by (simp_all add: k_r_def k0_def inode0_def buf0_def mapped_def blockof_def
        MAXFILE_def NDIRECT_def NINDIRECT_def BSIZE_def)


lemma k_r_byte:
  "k < 1024 \<Longrightarrow> file_byte k_r 0 k = 7"
  "1024 \<le> k \<Longrightarrow> k < 2048 \<Longrightarrow> file_byte k_r 0 k = 9"
proof -
  show "k < 1024 \<Longrightarrow> file_byte k_r 0 k = 7"
    by (simp add: file_byte_def BSIZE_def k_r_facts)
  assume "1024 \<le> k" "k < 2048"
  then have "k div 1024 = Suc 0" by linarith
  then show "file_byte k_r 0 k = 9" by (simp add: file_byte_def BSIZE_def k_r_facts)
qed

lemma k_r_bytes:
  "map (file_byte k_r 0) [1020..<1024] = [7, 7, 7, 7]"
  "map (file_byte k_r 0) [1024..<1028] = [9, 9, 9, 9]"
  by (simp_all add: upt_conv_Cons k_r_byte)



end
